theory Spec2Isabelle
  imports Main "HOL-Library.Word" "HOL-Library.Sublist"
begin

section \<open>Strings\<close>

text \<open>
  A JavaScript string is a sequence of UTF-16 code units. Every string operation the
  component uses (\<^verbatim>\<open>indexOf\<close>, \<^verbatim>\<open>substring\<close>, \<^verbatim>\<open>trim\<close>, \<^verbatim>\<open>startsWith\<close>,
  \<^verbatim>\<open>length\<close>, \<^verbatim>\<open>+\<close>, \<^verbatim>\<open>===\<close>) works on code units, so a string is a list of
  16-bit words. \<open>js\<close> writes an ASCII literal of the source as such a list.
\<close>

type_synonym jstring = "16 word list"

definition js :: "string \<Rightarrow> jstring" where
  "js s = map of_char s"

text \<open>The two non-ASCII characters of the source's literals: U+274C and U+2705.\<close>

definition cross_mark :: "16 word" where
  "cross_mark = 0x274C"

definition check_mark :: "16 word" where
  "check_mark = 0x2705"

text \<open>
  \<^verbatim>\<open>s.indexOf(pat)\<close>: the first position where \<open>pat\<close> occurs in \<open>s\<close>; \<open>None\<close> is
  the source's \<^verbatim>\<open>-1\<close>.
\<close>

fun indexOf :: "jstring \<Rightarrow> jstring \<Rightarrow> nat option" where
  "indexOf [] pat = (if pat = [] then Some 0 else None)"
| "indexOf (c # cs) pat =
     (if prefix pat (c # cs) then Some 0 else map_option Suc (indexOf cs pat))"

text \<open>
  \<^verbatim>\<open>s.trim()\<close> removes leading and trailing white space and line terminators, as
  ECMAScript lists them.
\<close>

definition is_space :: "16 word \<Rightarrow> bool" where
  "is_space c \<longleftrightarrow> c \<in> set [0x9, 0xA, 0xB, 0xC, 0xD, 0x20, 0xA0, 0x1680,
     0x2000, 0x2001, 0x2002, 0x2003, 0x2004, 0x2005, 0x2006, 0x2007, 0x2008, 0x2009, 0x200A,
     0x2028, 0x2029, 0x202F, 0x205F, 0x3000, 0xFEFF]"

definition trim :: "jstring \<Rightarrow> jstring" where
  "trim s = rev (dropWhile is_space (rev (dropWhile is_space s)))"

definition startsWith :: "jstring \<Rightarrow> jstring \<Rightarrow> bool" where
  "startsWith s pat = prefix pat s"

text \<open>A number in a template literal is written in decimal.\<close>

fun decimal :: "nat \<Rightarrow> jstring" where
  "decimal n = (if n < 10 then [of_nat (48 + n)]
     else decimal (n div 10) @ [of_nat (48 + n mod 10)])"

declare decimal.simps [simp del]

section \<open>The stream state and its reducer\<close>

text \<open>
  \<^verbatim>\<open>initialState\<close> and \<^verbatim>\<open>streamReducer\<close>. \<open>error\<close> is \<^verbatim>\<open>null\<close> (\<open>None\<close>) or a
  string; \<open>statusMessage\<close> is a string, or \<^verbatim>\<open>undefined\<close> (\<open>None\<close>) after an
  \<^verbatim>\<open>UPDATE_STATUS\<close> whose payload was a missing \<^verbatim>\<open>message\<close> field.
\<close>

record stream_state =
  transcript :: jstring
  summary :: jstring
  statusMessage :: "jstring option"
  error :: "jstring option"
  isProcessing :: bool

datatype action =
    START
  | UPDATE_STATUS "jstring option"
  | APPEND_TRANSCRIPT jstring
  | APPEND_SUMMARY jstring
  | COMPLETE "jstring option"
  | ERROR jstring
  | OTHER

definition initialState :: stream_state where
  "initialState = \<lparr> transcript = [], summary = [],
     statusMessage = Some (js ''Upload an audio or video file to begin.''),
     error = None, isProcessing = False \<rparr>"

text \<open>\<^verbatim>\<open>a || b\<close> on a string that may be missing: the empty string is falsy too.\<close>

definition truthy :: "jstring option \<Rightarrow> bool" where
  "truthy v = (case v of None \<Rightarrow> False | Some s \<Rightarrow> s \<noteq> [])"

fun streamReducer :: "stream_state \<Rightarrow> action \<Rightarrow> stream_state" where
  "streamReducer state START =
     initialState \<lparr> isProcessing := True, statusMessage := Some (js ''File uploading...''),
       error := None \<rparr>"
| "streamReducer state (UPDATE_STATUS payload) = state \<lparr> statusMessage := payload \<rparr>"
| "streamReducer state (APPEND_TRANSCRIPT payload) =
     (let newTranscriptPart =
        (if length (transcript state) > 0 then js '' '' @ payload else payload)
      in state \<lparr> transcript := transcript state @ newTranscriptPart \<rparr>)"
| "streamReducer state (APPEND_SUMMARY payload) =
     (let newSummaryPart =
        (if length (summary state) > 0 then js '' '' @ payload else payload)
      in state \<lparr> summary := summary state @ newSummaryPart \<rparr>)"
| "streamReducer state (COMPLETE payload) =
     state \<lparr> isProcessing := False,
       statusMessage := (if truthy payload then payload else statusMessage state) \<rparr>"
| "streamReducer state (ERROR payload) =
     state \<lparr> isProcessing := False, error := Some payload,
       statusMessage := Some (cross_mark # js '' Error: '' @ payload) \<rparr>"
| "streamReducer state OTHER = state"

section \<open>What the handler does: dispatches and console output\<close>

text \<open>
  A thrown value is read by the handler through \<^verbatim>\<open>err.name\<close> and \<^verbatim>\<open>err.message\<close> only.
\<close>

datatype thrown = Thrown (err_name: jstring) (err_message: jstring)

datatype effect =
    Dispatch action
  | Console_log jstring
  | Console_error jstring "jstring option" thrown

definition dispatched :: "effect list \<Rightarrow> action list" where
  "dispatched evs = concat (map (\<lambda>e. case e of Dispatch a \<Rightarrow> [a] | _ \<Rightarrow> []) evs)"

text \<open>The state React publishes after the dispatches of a trace, from the state before.\<close>

definition published :: "stream_state \<Rightarrow> effect list \<Rightarrow> stream_state" where
  "published state evs = foldl streamReducer state (dispatched evs)"

section \<open>The frame decoder (lines 241 to 246 of the handler)\<close>

definition delimiter :: jstring where
  "delimiter = [0xA, 0xA]"

text \<open>
  One round of the inner loop's head: \<open>None\<close> when the buffer holds no delimiter
  (\<^verbatim>\<open>break\<close>), else the trimmed message and the buffer after the delimiter.
\<close>

definition next_frame :: "jstring \<Rightarrow> (jstring \<times> jstring) option" where
  "next_frame buffer =
     (case indexOf buffer delimiter of
        None \<Rightarrow> None
      | Some endOfMessage \<Rightarrow>
          Some (trim (take endOfMessage buffer), drop (endOfMessage + 2) buffer))"

section \<open>The message interpreter (lines 248 to 278)\<close>

text \<open>
  \<^verbatim>\<open>JSON.parse\<close> is the platform's, so the handler takes it as a parameter. Its result is
  what the handler reads of the parsed value: the four fields \<^verbatim>\<open>tag\<close>, \<^verbatim>\<open>message\<close>,
  \<^verbatim>\<open>transcript\<close> and \<^verbatim>\<open>summary\<close>, each a string or missing, as the wire format
  declares them. \<open>Inl e\<close> stands for a body on which \<^verbatim>\<open>JSON.parse\<close> throws \<open>e\<close>, and for
  the body \<^verbatim>\<open>null\<close>, on which reading \<^verbatim>\<open>data.tag\<close> throws. Fields of other types are
  outside the model.
\<close>

record payload =
  data_tag :: "jstring option"
  data_message :: "jstring option"
  data_transcript :: "jstring option"
  data_summary :: "jstring option"

type_synonym json_parse = "jstring \<Rightarrow> thrown + payload"

text \<open>
  The body of the inner \<^verbatim>\<open>try\<close>: the effects until it ends, and the value it throws, if
  any. \<^verbatim>\<open>new Error(undefined).message\<close> is the empty string.
\<close>

definition try_parse :: "json_parse \<Rightarrow> jstring \<Rightarrow> effect list \<times> thrown option" where
  "try_parse JSON_parse dataString =
     (case JSON_parse dataString of
        Inl e \<Rightarrow> ([], Some e)
      | Inr data \<Rightarrow>
          (let status_part =
                (if data_tag data = Some (js ''STATUS'')
                 then [Dispatch (UPDATE_STATUS (data_message data))] else [])
           in if data_tag data = Some (js ''ERROR'')
              then (status_part,
                    Some (Thrown (js ''Error'')
                      (case data_message data of None \<Rightarrow> [] | Some m \<Rightarrow> m)))
              else (status_part
                    @ (case data_transcript data of
                         None \<Rightarrow> []
                       | Some t \<Rightarrow> if t \<noteq> [] then [Dispatch (APPEND_TRANSCRIPT t)] else [])
                    @ (case data_summary data of
                         None \<Rightarrow> []
                       | Some s \<Rightarrow> if s \<noteq> [] then [Dispatch (APPEND_SUMMARY s)] else []),
                    None)))"

text \<open>The \<^verbatim>\<open>try\<close> with its \<^verbatim>\<open>catch\<close>, which logs whatever was thrown and goes on.\<close>

definition parse_and_dispatch :: "json_parse \<Rightarrow> jstring \<Rightarrow> effect list" where
  "parse_and_dispatch JSON_parse dataString =
     (case try_parse JSON_parse dataString of
        (evs, None) \<Rightarrow> evs
      | (evs, Some e) \<Rightarrow>
          evs @ [Console_error (js ''Failed to parse JSON or received backend ERROR:'')
                   (Some dataString) e])"

text \<open>
  One message: its effects, and whether the handler returns (the \<^verbatim>\<open>[DONE]\<close> signal).
\<close>

definition on_message :: "json_parse \<Rightarrow> jstring \<Rightarrow> effect list \<times> bool" where
  "on_message JSON_parse message =
     (if startsWith message (js ''data:'') then
        (let dataString = trim (drop 5 message)
         in if dataString = js ''[DONE]''
            then ([Console_log (js ''Received [DONE] signal. Stopping read loop.'')], True)
            else (parse_and_dispatch JSON_parse dataString, False))
      else ([], False))"

section \<open>The read loop\<close>

lemma indexOf_bound: "indexOf s pat = Some i \<Longrightarrow> i + length pat \<le> length s"
proof (induction s arbitrary: i)
  case Nil
  then show ?case by (simp split: if_splits)
next
  case (Cons c cs)
  show ?case
  proof (cases "prefix pat (c # cs)")
    case True
    then have "length pat \<le> length (c # cs)" by (rule prefix_length_le)
    with True Cons.prems show ?thesis by simp
  next
    case False
    with Cons.prems obtain j where "indexOf cs pat = Some j" "i = Suc j" by auto
    with Cons.IH show ?thesis by simp
  qed
qed

lemma next_frame_shorter:
  "next_frame buffer = Some (message, rest) \<Longrightarrow> length rest < length buffer"
  by (auto simp: next_frame_def delimiter_def split: option.splits dest!: indexOf_bound)

text \<open>How the inner \<^verbatim>\<open>while\<close> ends: the buffer that is left, or the \<^verbatim>\<open>return\<close>.\<close>

datatype drained = Drained jstring | Returned

function process_buffer :: "json_parse \<Rightarrow> jstring \<Rightarrow> effect list \<times> drained" where
  "process_buffer JSON_parse buffer =
     (case next_frame buffer of
        None \<Rightarrow> ([], Drained buffer)
      | Some (message, rest) \<Rightarrow>
          (if snd (on_message JSON_parse message)
           then (fst (on_message JSON_parse message), Returned)
           else (fst (on_message JSON_parse message) @ fst (process_buffer JSON_parse rest),
                 snd (process_buffer JSON_parse rest))))"
  by pat_completeness auto
termination
  by (relation "measure (\<lambda>(P, buffer). length buffer)") (auto simp: next_frame_shorter)

declare process_buffer.simps [simp del]

text \<open>
  What \<^verbatim>\<open>reader.read()\<close> gives, already decoded by the \<^verbatim>\<open>TextDecoder\<close>. The transport
  is the list of the reads that settle; after the last one the next read stays pending.
\<close>

datatype read_result = Read_value jstring | Read_done | Read_rejected thrown

text \<open>How the \<^verbatim>\<open>try\<close> block ends.\<close>

datatype completion = Awaiting | Normal | Return | Throws thrown

fun read_loop :: "json_parse \<Rightarrow> jstring \<Rightarrow> read_result list \<Rightarrow> effect list \<times> completion" where
  "read_loop JSON_parse buffer [] = ([], Awaiting)"
| "read_loop JSON_parse buffer (Read_rejected e # reads) = ([], Throws e)"
| "read_loop JSON_parse buffer (Read_done # reads) =
     ([Console_log (js ''Stream reader finished.'')], Normal)"
| "read_loop JSON_parse buffer (Read_value text # reads) =
     (case process_buffer JSON_parse (buffer @ text) of
        (evs, Returned) \<Rightarrow> (evs, Return)
      | (evs, Drained buffer') \<Rightarrow>
          (evs @ fst (read_loop JSON_parse buffer' reads),
           snd (read_loop JSON_parse buffer' reads)))"

section \<open>The session controller\<close>

text \<open>A \<^verbatim>\<open>fetch\<close> either stays pending, rejects, or gives a response.\<close>

record response =
  status :: nat
  has_body :: bool

definition ok :: "response \<Rightarrow> bool" where
  "ok r \<longleftrightarrow> 200 \<le> status r \<and> status r \<le> 299"

datatype fetched = Pending | Rejected thrown | Fulfilled response

definition after :: "effect list \<Rightarrow> effect list \<times> completion \<Rightarrow> effect list \<times> completion" where
  "after evs r = (evs @ fst r, snd r)"

definition try_block ::
  "json_parse \<Rightarrow> fetched \<Rightarrow> fetched \<Rightarrow> read_result list \<Rightarrow> effect list \<times> completion" where
  "try_block JSON_parse upload stream reads =
     after [Dispatch (UPDATE_STATUS (Some (js ''Uploading file to server...'')))]
       (case upload of
          Pending \<Rightarrow> ([], Awaiting)
        | Rejected e \<Rightarrow> ([], Throws e)
        | Fulfilled uploadRes \<Rightarrow>
            if \<not> ok uploadRes
            then ([], Throws (Thrown (js ''Error'')
                    (js ''Upload failed with status '' @ decimal (status uploadRes))))
            else after
              [Dispatch (UPDATE_STATUS
                 (Some (js ''File uploaded. Starting processing stream...'')))]
              (case stream of
                 Pending \<Rightarrow> ([], Awaiting)
               | Rejected e \<Rightarrow> ([], Throws e)
               | Fulfilled streamRes \<Rightarrow>
                   if \<not> ok streamRes \<or> \<not> has_body streamRes
                   then ([], Throws (Thrown (js ''Error'')
                           (js ''Stream request failed with status ''
                            @ decimal (status streamRes))))
                   else read_loop JSON_parse [] reads))"

definition catch_block :: "thrown \<Rightarrow> effect list" where
  "catch_block err =
     (if err_name err = js ''AbortError''
      then [Console_log (js ''Stream intentionally aborted during cleanup.'')]
      else [Console_error (js ''Fatal Streaming Error:'') None err,
            Dispatch (ERROR (if err_message err \<noteq> [] then err_message err
                             else js ''A fatal network or processing error occurred.''))])"

text \<open>
  The \<^verbatim>\<open>finally\<close> block. \<open>state\<close> is the \<^verbatim>\<open>state\<close> of the render that made the callback:
  the handler's dispatches never change it. (\<^verbatim>\<open>reader.cancel()\<close>, whose rejection is
  caught, and \<^verbatim>\<open>abort()\<close> dispatch nothing; they are taken to settle and are left out
  of the trace.)
\<close>

definition finally_block :: "bool \<Rightarrow> stream_state \<Rightarrow> effect list" where
  "finally_block isStreamSuccessful state =
     (if isStreamSuccessful
      then [Dispatch (COMPLETE
              (Some (check_mark # js '' Analysis Complete. Full Report Available.'')))]
      else if \<not> truthy (error state)
      then [Dispatch (ERROR (js ''The streaming connection was interrupted.''))]
      else [])"

text \<open>Whether the handler has run to its end, or waits on a promise that never settles.\<close>

datatype run = Settled | Suspended

text \<open>
  \<^verbatim>\<open>handleUploadAndAnalyze\<close>. \<open>file\<close> is the selected file's name, or \<open>None\<close>;
  \<open>state\<close> is the state the callback closes over.
\<close>

definition handleUploadAndAnalyze ::
  "json_parse \<Rightarrow> jstring option \<Rightarrow> stream_state \<Rightarrow> fetched \<Rightarrow> fetched \<Rightarrow> read_result list
     \<Rightarrow> effect list \<times> run" where
  "handleUploadAndAnalyze JSON_parse file state upload stream reads =
     (if file = None \<or> isProcessing state then ([], Settled)
      else
        (case try_block JSON_parse upload stream reads of
           (evs, Awaiting) \<Rightarrow> (Dispatch START # evs, Suspended)
         | (evs, Normal) \<Rightarrow> (Dispatch START # evs @ finally_block False state, Settled)
         | (evs, Return) \<Rightarrow> (Dispatch START # evs @ finally_block True state, Settled)
         | (evs, Throws err) \<Rightarrow>
             (Dispatch START # evs @ catch_block err @ finally_block False state, Settled)))"

text \<open>
  \<^verbatim>\<open>handleFileChange\<close>: the new value of \<^verbatim>\<open>file\<close> and the effects. \<open>selected\<close> is
  \<^verbatim>\<open>event.target.files[0]\<close>: a file's name, or \<open>None\<close>.
\<close>

definition handleFileChange ::
  "stream_state \<Rightarrow> jstring option \<Rightarrow> jstring option \<Rightarrow> jstring option \<times> effect list" where
  "handleFileChange state file selected =
     (if isProcessing state then (file, [])
      else (selected,
            [Dispatch (COMPLETE (Some
               (case selected of
                  Some name \<Rightarrow> js ''File selected: '' @ name @ js ''. Ready to analyze.''
                | None \<Rightarrow> js ''Upload an audio or video file to begin.'')))]))"

text \<open>
  The button of the render with state \<open>current\<close>: \<^verbatim>\<open>disabled\<close> when no file is selected
  or the state is processing, and a disabled button calls no handler. The callback it
  calls otherwise closes over \<open>state\<close>, which \<^verbatim>\<open>useCallback\<close> may have kept from an
  earlier render.
\<close>

definition button_disabled :: "jstring option \<Rightarrow> stream_state \<Rightarrow> bool" where
  "button_disabled file current \<longleftrightarrow> file = None \<or> isProcessing current"

definition onClick ::
  "json_parse \<Rightarrow> jstring option \<Rightarrow> stream_state \<Rightarrow> stream_state \<Rightarrow> fetched \<Rightarrow> fetched
     \<Rightarrow> read_result list \<Rightarrow> effect list \<times> run" where
  "onClick JSON_parse file current state upload stream reads =
     (if button_disabled file current then ([], Settled)
      else handleUploadAndAnalyze JSON_parse file state upload stream reads)"

section \<open>The decoder and the interpreter on their own\<close>

text \<open>
  \<open>decode\<close> is the inner loop without the interpreter: the frames it cuts from a buffer
  and the buffer it leaves. \<open>feed_all\<close> is the outer loop over it, chunk after chunk.
  \<open>on_messages\<close> is the interpreter over a list of frames, up to the first \<^verbatim>\<open>[DONE]\<close>.
  Lemma \<open>process_buffer_decode\<close> below shows that the handler's loop is the one after the
  other.
\<close>

function decode :: "jstring \<Rightarrow> jstring list \<times> jstring" where
  "decode buffer =
     (case next_frame buffer of
        None \<Rightarrow> ([], buffer)
      | Some (message, rest) \<Rightarrow> (message # fst (decode rest), snd (decode rest)))"
  by pat_completeness auto
termination
  by (relation "measure length") (auto simp: next_frame_shorter)

declare decode.simps [simp del]

fun feed_all :: "jstring \<Rightarrow> jstring list \<Rightarrow> jstring list \<times> jstring" where
  "feed_all buffer [] = ([], buffer)"
| "feed_all buffer (text # chunks) =
     (fst (decode (buffer @ text)) @ fst (feed_all (snd (decode (buffer @ text))) chunks),
      snd (feed_all (snd (decode (buffer @ text))) chunks))"

fun on_messages :: "json_parse \<Rightarrow> jstring list \<Rightarrow> effect list \<times> bool" where
  "on_messages JSON_parse [] = ([], False)"
| "on_messages JSON_parse (message # messages) =
     (if snd (on_message JSON_parse message)
      then (fst (on_message JSON_parse message), True)
      else (fst (on_message JSON_parse message) @ fst (on_messages JSON_parse messages),
            snd (on_messages JSON_parse messages)))"

definition effects_of :: "json_parse \<Rightarrow> jstring list \<Rightarrow> effect list" where
  "effects_of JSON_parse records =
     concat (map (\<lambda>r. fst (on_message JSON_parse (trim r))) records)"

text \<open>
  A stream's text as records, each followed by the delimiter. A record has
  \<open>no_blank_line\<close> when the delimiter occurs neither inside it nor across its end; a
  one-line \<^verbatim>\<open>data: {...}\<close> record is such a record.
\<close>

definition wire :: "jstring list \<Rightarrow> jstring" where
  "wire records = concat (map (\<lambda>r. r @ delimiter) records)"

definition no_blank_line :: "jstring \<Rightarrow> bool" where
  "no_blank_line r \<longleftrightarrow> indexOf (r @ [0xA]) delimiter = None"

text \<open>The frame at which the handler returns, and the two transitions that end a session.\<close>

definition is_done :: "jstring \<Rightarrow> bool" where
  "is_done message \<longleftrightarrow>
     startsWith message (js ''data:'') \<and> trim (drop 5 message) = js ''[DONE]''"

definition terminal :: "action \<Rightarrow> bool" where
  "terminal a = (case a of COMPLETE p \<Rightarrow> True | ERROR p \<Rightarrow> True | _ \<Rightarrow> False)"

section \<open>Sample inputs\<close>

text \<open>
  \<open>sample_parse\<close> agrees with \<^verbatim>\<open>JSON.parse\<close> on the bodies the examples below use: the
  four JSON texts it lists, and \<^verbatim>\<open>{oops\<close>, which is not JSON.
\<close>

definition sample_parse :: json_parse where
  "sample_parse s =
     (if s = js ''{\"tag\":\"ERROR\",\"message\":\"boom\"}''
      then Inr \<lparr> data_tag = Some (js ''ERROR''), data_message = Some (js ''boom''),
                 data_transcript = None, data_summary = None \<rparr>
      else if s = js ''{\"transcript\":\"hi\"}''
      then Inr \<lparr> data_tag = None, data_message = None,
                 data_transcript = Some (js ''hi''), data_summary = None \<rparr>
      else if s = js ''{\"transcript\":\"\",\"summary\":\"\"}''
      then Inr \<lparr> data_tag = None, data_message = None,
                 data_transcript = Some [], data_summary = Some [] \<rparr>
      else if s = js ''{\"summary\":\"ok\"}''
      then Inr \<lparr> data_tag = None, data_message = None,
                 data_transcript = None, data_summary = Some (js ''ok'') \<rparr>
      else Inl (Thrown (js ''SyntaxError'') (js ''Unexpected token'')))"

definition ok_response :: response where
  "ok_response = \<lparr> status = 200, has_body = True \<rparr>"

definition hi_record :: jstring where
  "hi_record = js ''data: {\"transcript\":\"hi\"}''"

definition ok_record :: jstring where
  "ok_record = js ''data: {\"summary\":\"ok\"}''"

definition error_record :: jstring where
  "error_record = js ''data: {\"tag\":\"ERROR\",\"message\":\"boom\"}''"

definition bad_record :: jstring where
  "bad_record = js ''data: {oops''"

definition done_record :: jstring where
  "done_record = js ''data: [DONE]''"

definition empty_record :: jstring where
  "empty_record = js ''data: {\"transcript\":\"\",\"summary\":\"\"}''"

definition file_name :: "jstring option" where
  "file_name = Some (js ''a.mp3'')"

definition processing_state :: stream_state where
  "processing_state = streamReducer initialState START"

text \<open>The state an earlier session leaves when it ended with the interruption error.\<close>

definition failed_state :: stream_state where
  "failed_state =
     streamReducer processing_state (ERROR (js ''The streaming connection was interrupted.''))"

section \<open>Lemmas on the decoder\<close>

lemma prefix_of_append_short:
  "prefix p (xs @ t) \<Longrightarrow> length p \<le> length xs \<Longrightarrow> prefix p xs"
  by (auto simp: prefix_append)

lemma indexOf_append:
  "indexOf s pat = Some i \<Longrightarrow> indexOf (s @ t) pat = Some i"
proof (induction s arbitrary: i)
  case Nil
  then show ?case by (cases t) (auto split: if_splits)
next
  case (Cons c cs)
  show ?case
  proof (cases "prefix pat (c # cs)")
    case True
    then have "prefix pat ((c # cs) @ t)" by (rule prefix_prefix)
    with True Cons.prems show ?thesis by simp
  next
    case False
    with Cons.prems obtain j where j: "indexOf cs pat = Some j" "i = Suc j" by auto
    then have "length pat \<le> length (c # cs)" by (auto dest: indexOf_bound)
    with False have "\<not> prefix pat ((c # cs) @ t)"
      using prefix_of_append_short by blast
    with j Cons.IH show ?thesis by simp
  qed
qed

lemma next_frame_append:
  assumes "next_frame buffer = Some (message, rest)"
  shows "next_frame (buffer @ text) = Some (message, rest @ text)"
proof -
  from assms obtain i where i: "indexOf buffer delimiter = Some i"
    and m: "message = trim (take i buffer)" and r: "rest = drop (i + 2) buffer"
    by (auto simp: next_frame_def split: option.splits)
  from i have "i + 2 \<le> length buffer" by (auto dest: indexOf_bound simp: delimiter_def)
  with i m r show ?thesis by (simp add: next_frame_def indexOf_append)
qed

lemma decode_None: "next_frame buffer = None \<Longrightarrow> decode buffer = ([], buffer)"
  by (simp add: decode.simps)

lemma decode_Some:
  "next_frame buffer = Some (message, rest) \<Longrightarrow>
     decode buffer = (message # fst (decode rest), snd (decode rest))"
  by (simp add: decode.simps)

lemma decode_drained: "next_frame (snd (decode buffer)) = None"
proof (induction buffer rule: decode.induct)
  case (1 buffer)
  show ?case
  proof (cases "next_frame buffer")
    case None
    then show ?thesis by (simp add: decode_None)
  next
    case (Some a)
    then obtain message rest where "next_frame buffer = Some (message, rest)" by (cases a) auto
    with 1 show ?thesis by (simp add: decode_Some)
  qed
qed

lemma decode_append:
  "decode (buffer @ text) =
     (fst (decode buffer) @ fst (decode (snd (decode buffer) @ text)),
      snd (decode (snd (decode buffer) @ text)))"
proof (induction buffer rule: decode.induct)
  case (1 buffer)
  show ?case
  proof (cases "next_frame buffer")
    case None
    then show ?thesis by (simp add: decode_None)
  next
    case (Some a)
    then obtain message rest where f: "next_frame buffer = Some (message, rest)" by (cases a) auto
    then have "next_frame (buffer @ text) = Some (message, rest @ text)"
      by (rule next_frame_append)
    with f 1 show ?thesis by (simp add: decode_Some)
  qed
qed

lemma feed_all_decode:
  "next_frame buffer = None \<Longrightarrow> feed_all buffer chunks = decode (buffer @ concat chunks)"
proof (induction chunks arbitrary: buffer)
  case Nil
  then show ?case by (simp add: decode_None)
next
  case (Cons chunk chunks)
  have "feed_all (snd (decode (buffer @ chunk))) chunks
      = decode (snd (decode (buffer @ chunk)) @ concat chunks)"
    by (rule Cons.IH) (rule decode_drained)
  moreover have "decode ((buffer @ chunk) @ concat chunks) =
     (fst (decode (buffer @ chunk)) @ fst (decode (snd (decode (buffer @ chunk)) @ concat chunks)),
      snd (decode (snd (decode (buffer @ chunk)) @ concat chunks)))"
    by (rule decode_append)
  ultimately show ?case by simp
qed

lemma no_blank_line_Cons:
  "no_blank_line (c # cs) \<Longrightarrow> no_blank_line cs"
  by (auto simp: no_blank_line_def split: if_splits)

lemma indexOf_record:
  "no_blank_line r \<Longrightarrow> indexOf (r @ delimiter @ tail) delimiter = Some (length r)"
proof (induction r)
  case Nil
  then show ?case by (simp add: delimiter_def)
next
  case (Cons c cs)
  then have IH: "indexOf (cs @ delimiter @ tail) delimiter = Some (length cs)"
    by (auto dest: no_blank_line_Cons)
  from Cons.prems have "\<not> prefix delimiter ((c # cs) @ [0xA])"
    by (auto simp: no_blank_line_def split: if_splits)
  then have "\<not> prefix delimiter ((c # cs) @ delimiter @ tail)"
    by (cases cs) (auto simp: delimiter_def)
  with IH show ?case by simp
qed

lemma next_frame_record:
  "no_blank_line r \<Longrightarrow> next_frame (r @ delimiter @ tail) = Some (trim r, tail)"
  by (simp add: next_frame_def indexOf_record) (simp add: delimiter_def)

lemma decode_wire:
  "\<forall>r \<in> set records. no_blank_line r \<Longrightarrow>
     decode (wire records @ tail) = (map trim records @ fst (decode tail), snd (decode tail))"
proof (induction records)
  case Nil
  then show ?case by (simp add: wire_def)
next
  case (Cons r records)
  then have "next_frame (wire (r # records) @ tail) = Some (trim r, wire records @ tail)"
    by (simp add: wire_def next_frame_record)
  with Cons show ?case by (simp add: decode_Some)
qed

text \<open>
  Conversely, whatever the loop cuts off a buffer is such a record with its delimiter, so
  the theorems below, stated on \<open>wire\<close>, lose no stream.
\<close>

lemma indexOf_split:
  "indexOf s delimiter = Some i \<Longrightarrow>
     s = take i s @ delimiter @ drop (i + 2) s \<and> no_blank_line (take i s)"
proof (induction s arbitrary: i)
  case Nil
  then show ?case by (simp add: delimiter_def)
next
  case (Cons c cs)
  show ?case
  proof (cases "prefix delimiter (c # cs)")
    case True
    with Cons.prems have "i = 0" by simp
    with True show ?thesis
      by (auto simp: prefix_def delimiter_def no_blank_line_def)
  next
    case False
    with Cons.prems obtain j where j: "indexOf cs delimiter = Some j" "i = Suc j" by auto
    with Cons.IH have IH: "cs = take j cs @ delimiter @ drop (j + 2) cs"
      "no_blank_line (take j cs)" by auto
    have "\<not> prefix delimiter ((c # take j cs) @ [0xA])"
    proof
      assume p: "prefix delimiter ((c # take j cs) @ [0xA])"
      have "prefix ((c # take j cs) @ [0xA]) (c # cs)"
        using IH(1) by (metis Cons_eq_appendI append_Cons append_Nil delimiter_def prefixI append_assoc)
      with p have "prefix delimiter (c # cs)" by (rule prefix_order.trans)
      with False show False by simp
    qed
    with IH j show ?thesis by (auto simp: no_blank_line_def)
  qed
qed

lemma next_frame_is_record:
  "next_frame buffer = Some (message, rest) \<Longrightarrow>
     \<exists>r. no_blank_line r \<and> buffer = r @ delimiter @ rest \<and> message = trim r"
proof -
  assume "next_frame buffer = Some (message, rest)"
  then obtain i where i: "indexOf buffer delimiter = Some i"
    and m: "message = trim (take i buffer)" and r: "rest = drop (i + 2) buffer"
    by (auto simp: next_frame_def split: option.splits)
  from indexOf_split [OF i] m r
  have "no_blank_line (take i buffer) \<and> buffer = take i buffer @ delimiter @ rest
      \<and> message = trim (take i buffer)" by simp
  then show ?thesis by blast
qed

lemma next_frame_empty: "next_frame [] = None"
  by (simp add: next_frame_def delimiter_def)

section \<open>Lemmas on the loops\<close>

lemma process_buffer_None:
  "next_frame buffer = None \<Longrightarrow> process_buffer P buffer = ([], Drained buffer)"
  by (simp add: process_buffer.simps)

lemma process_buffer_Some:
  "next_frame buffer = Some (message, rest) \<Longrightarrow>
     process_buffer P buffer =
       (if snd (on_message P message) then (fst (on_message P message), Returned)
        else (fst (on_message P message) @ fst (process_buffer P rest),
              snd (process_buffer P rest)))"
  by (subst process_buffer.simps) simp

lemma process_buffer_decode:
  "process_buffer P buffer =
     (fst (on_messages P (fst (decode buffer))),
      if snd (on_messages P (fst (decode buffer))) then Returned
      else Drained (snd (decode buffer)))"
proof (induction buffer rule: decode.induct)
  case (1 buffer)
  show ?case
  proof (cases "next_frame buffer")
    case None
    then show ?thesis by (simp add: decode_None process_buffer_None)
  next
    case (Some a)
    then obtain message rest where f: "next_frame buffer = Some (message, rest)" by (cases a) auto
    with 1 have "process_buffer P rest =
      (fst (on_messages P (fst (decode rest))),
       if snd (on_messages P (fst (decode rest))) then Returned else Drained (snd (decode rest)))"
      by simp
    with f show ?thesis by (simp add: decode_Some process_buffer_Some)
  qed
qed

lemma process_buffer_drained:
  "process_buffer P buffer = (evs, Drained rest) \<Longrightarrow> next_frame rest = None"
  by (subst (asm) process_buffer_decode) (auto split: if_splits simp: decode_drained)

lemma process_buffer_append:
  "process_buffer P (buffer @ chunk) =
     (case snd (process_buffer P buffer) of
        Returned \<Rightarrow> process_buffer P buffer
      | Drained rest \<Rightarrow>
          (fst (process_buffer P buffer) @ fst (process_buffer P (rest @ chunk)),
           snd (process_buffer P (rest @ chunk))))"
proof (induction buffer rule: decode.induct)
  case (1 buffer)
  show ?case
  proof (cases "next_frame buffer")
    case None
    then show ?thesis by (simp add: process_buffer_None)
  next
    case (Some a)
    then obtain message rest where f: "next_frame buffer = Some (message, rest)" by (cases a) auto
    then have g: "next_frame (buffer @ chunk) = Some (message, rest @ chunk)"
      by (rule next_frame_append)
    from f 1 have IH: "process_buffer P (rest @ chunk) =
     (case snd (process_buffer P rest) of
        Returned \<Rightarrow> process_buffer P rest
      | Drained rest' \<Rightarrow>
          (fst (process_buffer P rest) @ fst (process_buffer P (rest' @ chunk)),
           snd (process_buffer P (rest' @ chunk))))" by simp
    show ?thesis
      by (simp add: process_buffer_Some [OF f] process_buffer_Some [OF g] IH
          split: drained.splits)
  qed
qed

lemma read_loop_concat:
  "next_frame buffer = None \<Longrightarrow>
   read_loop P buffer (map Read_value chunks @ reads) =
     (case snd (process_buffer P (buffer @ concat chunks)) of
        Returned \<Rightarrow> (fst (process_buffer P (buffer @ concat chunks)), Return)
      | Drained rest \<Rightarrow>
          (fst (process_buffer P (buffer @ concat chunks)) @ fst (read_loop P rest reads),
           snd (read_loop P rest reads)))"
proof (induction chunks arbitrary: buffer)
  case Nil
  then show ?case by (simp add: process_buffer_None)
next
  case (Cons chunk chunks)
  show ?case
  proof (cases "process_buffer P (buffer @ chunk)")
    case (Pair evs d)
    show ?thesis
    proof (cases d)
      case Returned
      with Pair show ?thesis
        using process_buffer_append [of P "buffer @ chunk" "concat chunks"] by simp
    next
      case (Drained rest)
      with Pair have "next_frame rest = None" by (auto dest: process_buffer_drained)
      then have "read_loop P rest (map Read_value chunks @ reads) =
       (case snd (process_buffer P (rest @ concat chunks)) of
          Returned \<Rightarrow> (fst (process_buffer P (rest @ concat chunks)), Return)
        | Drained rest' \<Rightarrow>
            (fst (process_buffer P (rest @ concat chunks)) @ fst (read_loop P rest' reads),
             snd (read_loop P rest' reads)))" by (rule Cons.IH)
      with Pair Drained show ?thesis
        using process_buffer_append [of P "buffer @ chunk" "concat chunks"]
        by (simp split: drained.splits)
    qed
  qed
qed

lemma process_wire:
  "\<forall>r \<in> set records. no_blank_line r \<and> \<not> snd (on_message P (trim r)) \<Longrightarrow>
     process_buffer P (wire records @ tail) =
       (effects_of P records @ fst (process_buffer P tail), snd (process_buffer P tail))"
proof (induction records)
  case Nil
  then show ?case by (simp add: wire_def effects_of_def)
next
  case (Cons r records)
  then have "next_frame (wire (r # records) @ tail) = Some (trim r, wire records @ tail)"
    by (simp add: wire_def next_frame_record)
  with Cons show ?case by (simp add: process_buffer_Some effects_of_def)
qed

lemma snd_on_message: "snd (on_message P message) = is_done message"
  by (simp add: on_message_def is_done_def Let_def)

lemma on_message_done:
  "is_done message \<Longrightarrow>
     on_message P message =
       ([Console_log (js ''Received [DONE] signal. Stopping read loop.'')], True)"
  by (simp add: on_message_def is_done_def)

lemma on_message_malformed:
  "startsWith message (js ''data:'') \<Longrightarrow> \<not> is_done message \<Longrightarrow>
   P (trim (drop 5 message)) = Inl e \<Longrightarrow>
     on_message P message =
       ([Console_error (js ''Failed to parse JSON or received backend ERROR:'')
           (Some (trim (drop 5 message))) e], False)"
  by (simp add: on_message_def is_done_def parse_and_dispatch_def try_parse_def)

lemma process_buffer_empty: "process_buffer P [] = ([], Drained [])"
  by (simp add: process_buffer_None next_frame_def delimiter_def)

lemma read_loop_rechunk:
  "concat chunks = concat chunks' \<Longrightarrow>
     read_loop P [] (map Read_value chunks @ reads)
       = read_loop P [] (map Read_value chunks' @ reads)"
  by (simp add: read_loop_concat [OF next_frame_empty] cong: drained.case_cong)

section \<open>Lemmas on the dispatched transitions\<close>

lemma dispatched_simps [simp]:
  "dispatched [] = []"
  "dispatched (Dispatch a # evs) = a # dispatched evs"
  "dispatched (Console_log l # evs) = dispatched evs"
  "dispatched (Console_error l d e # evs) = dispatched evs"
  "dispatched (evs @ evs') = dispatched evs @ dispatched evs'"
  by (simp_all add: dispatched_def)

lemma on_message_not_terminal:
  "a \<in> set (dispatched (fst (on_message P message))) \<Longrightarrow> \<not> terminal a"
  by (auto simp: on_message_def parse_and_dispatch_def try_parse_def terminal_def Let_def
      split: if_splits sum.splits option.splits)

lemma on_messages_not_terminal:
  "a \<in> set (dispatched (fst (on_messages P messages))) \<Longrightarrow> \<not> terminal a"
  by (induction messages) (auto split: if_splits dest: on_message_not_terminal)

lemma process_buffer_not_terminal:
  "a \<in> set (dispatched (fst (process_buffer P buffer))) \<Longrightarrow> \<not> terminal a"
  by (subst (asm) process_buffer_decode) (auto dest: on_messages_not_terminal)

lemma read_loop_not_terminal:
  "a \<in> set (dispatched (fst (read_loop P buffer reads))) \<Longrightarrow> \<not> terminal a"
proof (induction P buffer reads rule: read_loop.induct)
  case (4 P buffer chunk reads)
  show ?case
  proof (cases "process_buffer P (buffer @ chunk)")
    case (Pair evs d)
    then have evs: "\<And>b. b \<in> set (dispatched evs) \<Longrightarrow> \<not> terminal b"
      using process_buffer_not_terminal [of _ P "buffer @ chunk"] by simp
    show ?thesis
    proof (cases d)
      case Returned
      with Pair "4.prems" evs show ?thesis by auto
    next
      case (Drained rest)
      with Pair "4.prems" evs "4.IH" show ?thesis by auto
    qed
  qed
qed (auto simp: terminal_def)

lemma try_block_not_terminal:
  "a \<in> set (dispatched (fst (try_block P upload stream reads))) \<Longrightarrow> \<not> terminal a"
  by (auto simp: try_block_def after_def terminal_def split: fetched.splits if_splits
      dest: read_loop_not_terminal)

section \<open>The reducer's transitions\<close>

text \<open>
  C6. For every state and text, \<^verbatim>\<open>APPEND_TRANSCRIPT\<close> gives the transcript followed by
  the text when the transcript is empty, and the transcript, one space and the text
  otherwise; \<^verbatim>\<open>APPEND_SUMMARY\<close> does the same on the summary. Appending "hello" then
  "world" to the empty transcript gives "hello world"; appending "" then "x" gives "x".
\<close>

theorem append_join:
  "transcript (streamReducer s (APPEND_TRANSCRIPT t)) =
     (if transcript s = [] then transcript s @ t else transcript s @ js '' '' @ t)
   \<and> summary (streamReducer s (APPEND_SUMMARY t)) =
     (if summary s = [] then summary s @ t else summary s @ js '' '' @ t)
   \<and> transcript (foldl streamReducer (s\<lparr>transcript := []\<rparr>)
        [APPEND_TRANSCRIPT (js ''hello''), APPEND_TRANSCRIPT (js ''world'')]) = js ''hello world''
   \<and> transcript (foldl streamReducer (s\<lparr>transcript := []\<rparr>)
        [APPEND_TRANSCRIPT (js ''''), APPEND_TRANSCRIPT (js ''x'')]) = js ''x''"
  by (simp add: Let_def js_def)

text \<open>The join at a transcript that is not empty, and at an empty summary.\<close>

theorem append_join_witness:
  "transcript (streamReducer (initialState\<lparr>transcript := js ''hello''\<rparr>)
       (APPEND_TRANSCRIPT (js ''world''))) = js ''hello world''
   \<and> summary (streamReducer initialState (APPEND_SUMMARY (js ''x''))) = js ''x''"
  using append_join [of "initialState\<lparr>transcript := js ''hello''\<rparr>" "js ''world''"]
    append_join [of initialState "js ''x''"]
  by (simp add: initialState_def js_def)

text \<open>
  C8, as the spec words it, fails on the status text: after \<^verbatim>\<open>ERROR("boom")\<close> the status
  is not "error: boom".
\<close>

theorem error_status_counterexample:
  "\<not> (isProcessing (streamReducer initialState (ERROR (js ''boom''))) = False
      \<and> error (streamReducer initialState (ERROR (js ''boom''))) = Some (js ''boom'')
      \<and> statusMessage (streamReducer initialState (ERROR (js ''boom'')))
          = Some (js ''error: '' @ js ''boom''))"
  by (simp add: cross_mark_def js_def)

text \<open>
  C8, amended. For every state and text \<open>t\<close>, \<^verbatim>\<open>ERROR(t)\<close> gives a state that is no
  longer processing, whose error is \<open>t\<close> and whose status is the cross mark U+274C, then
  " Error: ", then \<open>t\<close>; the transcript and the summary are kept.
\<close>

theorem error_transition:
  "isProcessing (streamReducer s (ERROR t)) = False
   \<and> error (streamReducer s (ERROR t)) = Some t
   \<and> statusMessage (streamReducer s (ERROR t)) = Some (cross_mark # js '' Error: '' @ t)
   \<and> terminal (ERROR t)
   \<and> transcript (streamReducer s (ERROR t)) = transcript s
   \<and> summary (streamReducer s (ERROR t)) = summary s"
  by (simp add: terminal_def)

theorem error_transition_witness:
  "isProcessing (streamReducer processing_state (ERROR (js ''boom''))) = False
   \<and> error (streamReducer processing_state (ERROR (js ''boom''))) = Some (js ''boom'')
   \<and> statusMessage (streamReducer processing_state (ERROR (js ''boom'')))
        = Some (cross_mark # js '' Error: boom'')"
  using error_transition [of processing_state "js ''boom''"] by (simp add: js_def)

section \<open>The interpreter\<close>

text \<open>
  C10. When the parsed payload's \<^verbatim>\<open>transcript\<close> is the empty string the message gives
  no \<^verbatim>\<open>APPEND_TRANSCRIPT\<close>, and likewise for \<^verbatim>\<open>summary\<close>; an append that a message
  does give carries a fragment of the payload that is not empty.
\<close>

theorem empty_fragment_no_append:
  "JSON_parse (trim (drop 5 message)) = Inr data \<Longrightarrow>
     (data_transcript data = Some [] \<longrightarrow>
        (\<forall>t. APPEND_TRANSCRIPT t \<notin> set (dispatched (fst (on_message JSON_parse message)))))
     \<and> (data_summary data = Some [] \<longrightarrow>
        (\<forall>t. APPEND_SUMMARY t \<notin> set (dispatched (fst (on_message JSON_parse message)))))
     \<and> (\<forall>t. APPEND_TRANSCRIPT t \<in> set (dispatched (fst (on_message JSON_parse message))) \<longrightarrow>
            t \<noteq> [] \<and> data_transcript data = Some t)
     \<and> (\<forall>t. APPEND_SUMMARY t \<in> set (dispatched (fst (on_message JSON_parse message))) \<longrightarrow>
            t \<noteq> [] \<and> data_summary data = Some t)"
  by (auto simp: on_message_def parse_and_dispatch_def try_parse_def Let_def
      split: option.splits if_splits)

text \<open>A payload whose two fragments are both the empty string.\<close>

theorem empty_fragment_no_append_witness:
  "sample_parse (trim (drop 5 empty_record))
     = Inr \<lparr> data_tag = None, data_message = None,
             data_transcript = Some [], data_summary = Some [] \<rparr>
   \<and> (\<forall>t. APPEND_TRANSCRIPT t \<notin> set (dispatched (fst (on_message sample_parse empty_record))))
   \<and> (\<forall>t. APPEND_SUMMARY t \<notin> set (dispatched (fst (on_message sample_parse empty_record))))"
proof -
  have p: "sample_parse (trim (drop 5 empty_record))
     = Inr \<lparr> data_tag = None, data_message = None,
             data_transcript = Some [], data_summary = Some [] \<rparr>"
    by code_simp
  from empty_fragment_no_append
    [where JSON_parse = sample_parse and message = empty_record, OF p] p
  show ?thesis by simp
qed

section \<open>Starting a session\<close>

text \<open>
  C9. While the state is processing, a request to start a session does nothing: the
  handler returns at its guard with no dispatch, the button of that render is disabled
  whatever state its callback closes over, \<^verbatim>\<open>handleFileChange\<close> keeps the file and
  dispatches nothing, and the published state stays as it is.
\<close>

theorem start_rejected_while_processing:
  "isProcessing current \<Longrightarrow>
     handleUploadAndAnalyze JSON_parse selected_file current upload stream reads = ([], Settled)
     \<and> onClick JSON_parse selected_file current state upload stream reads = ([], Settled)
     \<and> handleFileChange current selected_file selected = (selected_file, [])
     \<and> published current
          (fst (handleUploadAndAnalyze JSON_parse selected_file current upload stream reads))
        = current
     \<and> published current
          (fst (onClick JSON_parse selected_file current state upload stream reads))
        = current"
  by (simp add: handleUploadAndAnalyze_def onClick_def button_disabled_def
      handleFileChange_def published_def)

text \<open>A second start while the first session, just started, is processing.\<close>

theorem start_rejected_while_processing_witness:
  "isProcessing processing_state
   \<and> handleUploadAndAnalyze sample_parse file_name processing_state
        (Fulfilled ok_response) (Fulfilled ok_response) [Read_value (hi_record @ delimiter)]
       = ([], Settled)
   \<and> onClick sample_parse file_name processing_state initialState
        (Fulfilled ok_response) (Fulfilled ok_response) [Read_value (hi_record @ delimiter)]
       = ([], Settled)
   \<and> handleFileChange processing_state file_name None = (file_name, [])"
proof -
  have p: "isProcessing processing_state"
    by (simp add: processing_state_def initialState_def)
  from start_rejected_while_processing [OF p] p show ?thesis by simp
qed

section \<open>The frame decoder\<close>

text \<open>
  C4. When the chunks, put end to end, are N records, each followed by the blank-line
  delimiter, the decoder gives exactly the N records, trimmed, each once and in order,
  and leaves an empty buffer, however the text is cut into chunks.
\<close>

theorem chunking_invariance:
  assumes "\<forall>r \<in> set records. no_blank_line r"
    and "concat chunks = wire records"
  shows "feed_all [] chunks = (map trim records, [])"
proof -
  have "next_frame [] = None" by (simp add: next_frame_def delimiter_def)
  then have "feed_all [] chunks = decode ([] @ concat chunks)" by (rule feed_all_decode)
  also have "\<dots> = decode (wire records @ [])" using assms(2) by simp
  also have "\<dots> = (map trim records @ fst (decode []), snd (decode []))"
    using assms(1) by (rule decode_wire)
  also have "decode [] = ([], [])" by (simp add: decode_None next_frame_def delimiter_def)
  finally show ?thesis by simp
qed

text \<open>Two records in three chunks; the second chunk ends inside the delimiter.\<close>

theorem chunking_invariance_witness:
  "no_blank_line hi_record \<and> no_blank_line ok_record
   \<and> concat [take 9 hi_record, drop 9 hi_record @ [0xA], 0xA # ok_record @ delimiter]
       = wire [hi_record, ok_record]
   \<and> feed_all [] [take 9 hi_record, drop 9 hi_record @ [0xA], 0xA # ok_record @ delimiter]
       = ([hi_record, ok_record], [])"
proof -
  have r: "\<forall>r \<in> set [hi_record, ok_record]. no_blank_line r" by code_simp
  have c: "concat [take 9 hi_record, drop 9 hi_record @ [0xA], 0xA # ok_record @ delimiter]
       = wire [hi_record, ok_record]" by code_simp
  have t: "map trim [hi_record, ok_record] = [hi_record, ok_record]" by code_simp
  from chunking_invariance [OF r c] r c t show ?thesis by simp
qed

section \<open>The read loop\<close>

text \<open>
  C7. A \<^verbatim>\<open>data:\<close> record whose body \<^verbatim>\<open>JSON.parse\<close> rejects costs one
  \<^verbatim>\<open>console.error\<close> and nothing else: the records before it and after it give their
  effects, nothing is dispatched for it, and the loop goes on to the next read.
\<close>

theorem malformed_frame_skipped:
  assumes valid: "\<forall>r \<in> set (earlier @ later). no_blank_line r \<and> \<not> is_done (trim r)"
    and bad: "no_blank_line bad" "startsWith (trim bad) (js ''data:'')"
      "\<not> is_done (trim bad)" "JSON_parse (trim (drop 5 (trim bad))) = Inl e"
    and chunks: "concat chunks = wire earlier @ bad @ delimiter @ wire later"
  shows "read_loop JSON_parse [] (map Read_value chunks @ reads) =
           (effects_of JSON_parse earlier
              @ [Console_error (js ''Failed to parse JSON or received backend ERROR:'')
                   (Some (trim (drop 5 (trim bad)))) e]
              @ effects_of JSON_parse later
              @ fst (read_loop JSON_parse [] reads),
            snd (read_loop JSON_parse [] reads))"
proof -
  have later: "process_buffer JSON_parse (wire later @ []) =
      (effects_of JSON_parse later @ fst (process_buffer JSON_parse []),
       snd (process_buffer JSON_parse []))"
    using valid by (intro process_wire) (simp add: snd_on_message)
  have frame: "next_frame (bad @ delimiter @ wire later) = Some (trim bad, wire later)"
    using bad(1) by (rule next_frame_record)
  have middle: "process_buffer JSON_parse (bad @ delimiter @ wire later) =
      (Console_error (js ''Failed to parse JSON or received backend ERROR:'')
         (Some (trim (drop 5 (trim bad)))) e # effects_of JSON_parse later, Drained [])"
    using later bad
    by (simp add: process_buffer_Some [OF frame] on_message_malformed process_buffer_empty)
  have "process_buffer JSON_parse (wire earlier @ bad @ delimiter @ wire later) =
      (effects_of JSON_parse earlier
         @ fst (process_buffer JSON_parse (bad @ delimiter @ wire later)),
       snd (process_buffer JSON_parse (bad @ delimiter @ wire later)))"
    using valid by (intro process_wire) (simp add: snd_on_message)
  with middle chunks have whole: "process_buffer JSON_parse ([] @ concat chunks) =
      (effects_of JSON_parse earlier
         @ Console_error (js ''Failed to parse JSON or received backend ERROR:'')
             (Some (trim (drop 5 (trim bad)))) e # effects_of JSON_parse later, Drained [])"
    by simp
  show ?thesis
    using read_loop_concat [OF next_frame_empty, of JSON_parse chunks reads] whole by simp
qed

text \<open>A transcript record, \<^verbatim>\<open>data: {oops\<close>, then a summary record, in three chunks.\<close>

theorem malformed_frame_skipped_witness:
  "no_blank_line hi_record \<and> no_blank_line ok_record \<and> no_blank_line bad_record
   \<and> startsWith (trim bad_record) (js ''data:'')
   \<and> sample_parse (trim (drop 5 (trim bad_record)))
       = Inl (Thrown (js ''SyntaxError'') (js ''Unexpected token''))
   \<and> read_loop sample_parse []
        [Read_value (hi_record @ delimiter @ bad_record), Read_value (delimiter @ ok_record),
         Read_value delimiter, Read_done]
       = ([Dispatch (APPEND_TRANSCRIPT (js ''hi'')),
           Console_error (js ''Failed to parse JSON or received backend ERROR:'')
             (Some (js ''{oops'')) (Thrown (js ''SyntaxError'') (js ''Unexpected token'')),
           Dispatch (APPEND_SUMMARY (js ''ok'')),
           Console_log (js ''Stream reader finished.'')], Normal)"
proof -
  have v: "\<forall>r \<in> set ([hi_record] @ [ok_record]). no_blank_line r \<and> \<not> is_done (trim r)"
    by code_simp
  have b: "no_blank_line bad_record" "startsWith (trim bad_record) (js ''data:'')"
    "\<not> is_done (trim bad_record)"
    "sample_parse (trim (drop 5 (trim bad_record)))
       = Inl (Thrown (js ''SyntaxError'') (js ''Unexpected token''))"
    by code_simp+
  have c: "concat [hi_record @ delimiter @ bad_record, delimiter @ ok_record, delimiter]
      = wire [hi_record] @ bad_record @ delimiter @ wire [ok_record]"
    by (simp add: wire_def)
  have e: "effects_of sample_parse [hi_record] = [Dispatch (APPEND_TRANSCRIPT (js ''hi''))]"
    "effects_of sample_parse [ok_record] = [Dispatch (APPEND_SUMMARY (js ''ok''))]"
    "trim (drop 5 (trim bad_record)) = js ''{oops''"
    by code_simp+
  from malformed_frame_skipped
    [where earlier = "[hi_record]" and later = "[ok_record]" and reads = "[Read_done]"
       and bad = bad_record and JSON_parse = sample_parse
       and e = "Thrown (js ''SyntaxError'') (js ''Unexpected token'')"
       and chunks = "[hi_record @ delimiter @ bad_record, delimiter @ ok_record, delimiter]",
     OF v b c] v b e
  show ?thesis by simp
qed

text \<open>
  C5. Once a record whose body is \<^verbatim>\<open>[DONE]\<close> is reached, the handler returns: the text
  after it in the buffer and the reads after that chunk leave no trace, and the cleanup
  dispatches \<^verbatim>\<open>COMPLETE\<close>, after which the state is no longer processing.
\<close>

theorem done_stops_reading:
  assumes start: "selected_file \<noteq> None" "\<not> isProcessing state"
    and opened: "ok uploadRes" "ok streamRes" "has_body streamRes"
    and valid: "\<forall>r \<in> set records. no_blank_line r \<and> \<not> is_done (trim r)"
    and sentinel: "no_blank_line d" "is_done (trim d)"
    and chunks: "concat chunks = wire records @ d @ delimiter @ unread"
  shows "handleUploadAndAnalyze JSON_parse selected_file state (Fulfilled uploadRes) (Fulfilled streamRes)
           (map Read_value chunks @ further) =
           (Dispatch START
              # Dispatch (UPDATE_STATUS (Some (js ''Uploading file to server...'')))
              # Dispatch (UPDATE_STATUS
                  (Some (js ''File uploaded. Starting processing stream...'')))
              # effects_of JSON_parse records
              @ [Console_log (js ''Received [DONE] signal. Stopping read loop.''),
                 Dispatch (COMPLETE
                   (Some (check_mark # js '' Analysis Complete. Full Report Available.'')))],
            Settled)
         \<and> isProcessing (published current
              (fst (handleUploadAndAnalyze JSON_parse selected_file state (Fulfilled uploadRes)
                 (Fulfilled streamRes) (map Read_value chunks @ further)))) = False"
proof -
  have frame: "next_frame (d @ delimiter @ unread) = Some (trim d, unread)"
    using sentinel(1) by (rule next_frame_record)
  have last: "process_buffer JSON_parse (d @ delimiter @ unread) =
      ([Console_log (js ''Received [DONE] signal. Stopping read loop.'')], Returned)"
    using sentinel(2) by (simp add: process_buffer_Some [OF frame] on_message_done)
  have "process_buffer JSON_parse (wire records @ d @ delimiter @ unread) =
      (effects_of JSON_parse records @ fst (process_buffer JSON_parse (d @ delimiter @ unread)),
       snd (process_buffer JSON_parse (d @ delimiter @ unread)))"
    using valid by (intro process_wire) (simp add: snd_on_message)
  with last chunks have whole: "process_buffer JSON_parse ([] @ concat chunks) =
      (effects_of JSON_parse records
         @ [Console_log (js ''Received [DONE] signal. Stopping read loop.'')], Returned)"
    by simp
  have loop: "read_loop JSON_parse [] (map Read_value chunks @ further) =
      (effects_of JSON_parse records
         @ [Console_log (js ''Received [DONE] signal. Stopping read loop.'')], Return)"
    using read_loop_concat [OF next_frame_empty, of JSON_parse chunks further] whole by simp
  have run: "handleUploadAndAnalyze JSON_parse selected_file state (Fulfilled uploadRes)
       (Fulfilled streamRes) (map Read_value chunks @ further) =
           (Dispatch START
              # Dispatch (UPDATE_STATUS (Some (js ''Uploading file to server...'')))
              # Dispatch (UPDATE_STATUS
                  (Some (js ''File uploaded. Starting processing stream...'')))
              # effects_of JSON_parse records
              @ [Console_log (js ''Received [DONE] signal. Stopping read loop.''),
                 Dispatch (COMPLETE
                   (Some (check_mark # js '' Analysis Complete. Full Report Available.'')))],
            Settled)"
    using start opened loop
    by (simp add: handleUploadAndAnalyze_def try_block_def after_def finally_block_def)
  show ?thesis unfolding run by (simp add: published_def)
qed

text \<open>
  \<^verbatim>\<open>[DONE]\<close> in the first chunk, a summary record behind it and two more reads: none
  of them shows.
\<close>

theorem done_stops_reading_witness:
  "no_blank_line hi_record \<and> no_blank_line done_record \<and> is_done (trim done_record)
   \<and> handleUploadAndAnalyze sample_parse file_name initialState
        (Fulfilled ok_response) (Fulfilled ok_response)
        [Read_value (hi_record @ delimiter @ done_record @ [0xA]),
         Read_value (0xA # ok_record @ delimiter), Read_value (hi_record @ delimiter), Read_done]
       = ([Dispatch START,
           Dispatch (UPDATE_STATUS (Some (js ''Uploading file to server...''))),
           Dispatch (UPDATE_STATUS (Some (js ''File uploaded. Starting processing stream...''))),
           Dispatch (APPEND_TRANSCRIPT (js ''hi'')),
           Console_log (js ''Received [DONE] signal. Stopping read loop.''),
           Dispatch (COMPLETE
             (Some (check_mark # js '' Analysis Complete. Full Report Available.'')))],
          Settled)"
proof -
  have s: "file_name \<noteq> None" "\<not> isProcessing initialState"
    "ok ok_response" "ok ok_response" "has_body ok_response"
    by (simp_all add: file_name_def initialState_def ok_def ok_response_def)
  have v: "\<forall>r \<in> set [hi_record]. no_blank_line r \<and> \<not> is_done (trim r)"
    by code_simp
  have d: "no_blank_line done_record" "is_done (trim done_record)"
    by code_simp+
  have c: "concat [hi_record @ delimiter @ done_record @ [0xA], 0xA # ok_record @ delimiter]
      = wire [hi_record] @ done_record @ delimiter @ wire [ok_record]"
    by (simp add: wire_def delimiter_def)
  have e: "effects_of sample_parse [hi_record] = [Dispatch (APPEND_TRANSCRIPT (js ''hi''))]"
    by code_simp
  from done_stops_reading
    [where further = "[Read_value (hi_record @ delimiter), Read_done]" and current = initialState
       and JSON_parse = sample_parse and records = "[hi_record]" and d = done_record
       and unread = "wire [ok_record]" and selected_file = file_name and state = initialState
       and uploadRes = ok_response and streamRes = ok_response
       and chunks = "[hi_record @ delimiter @ done_record @ [0xA], 0xA # ok_record @ delimiter]",
     OF s v d c] v d e
  show ?thesis by simp
qed

section \<open>Errors and aborts\<close>

text \<open>
  C3. The handler on a stream whose second read rejects with an \<^verbatim>\<open>AbortError\<close>. The
  \<^verbatim>\<open>catch\<close> block takes the abort as intended and dispatches nothing, but the cleanup
  then reads the error of the state the handler closes over. From a state with no error
  it dispatches \<^verbatim>\<open>ERROR\<close>, and the session ends with the interruption error; from the
  state an earlier failed session left, it dispatches nothing, and the session stays
  processing after the handler has settled.
\<close>

theorem aborted_session_reported_or_stuck:
  "dispatched (fst (handleUploadAndAnalyze sample_parse file_name initialState
      (Fulfilled ok_response) (Fulfilled ok_response)
      [Read_value (hi_record @ delimiter),
       Read_rejected (Thrown (js ''AbortError'') (js ''The operation was aborted.''))]))
     = [START,
        UPDATE_STATUS (Some (js ''Uploading file to server...'')),
        UPDATE_STATUS (Some (js ''File uploaded. Starting processing stream...'')),
        APPEND_TRANSCRIPT (js ''hi''),
        ERROR (js ''The streaming connection was interrupted.'')]
   \<and> error (published initialState (fst (handleUploadAndAnalyze sample_parse file_name
        initialState (Fulfilled ok_response) (Fulfilled ok_response)
        [Read_value (hi_record @ delimiter),
         Read_rejected (Thrown (js ''AbortError'') (js ''The operation was aborted.''))])))
     = Some (js ''The streaming connection was interrupted.'')
   \<and> handleUploadAndAnalyze sample_parse file_name failed_state
        (Fulfilled ok_response) (Fulfilled ok_response)
        [Read_value (hi_record @ delimiter),
         Read_rejected (Thrown (js ''AbortError'') (js ''The operation was aborted.''))]
     = ([Dispatch START,
         Dispatch (UPDATE_STATUS (Some (js ''Uploading file to server...''))),
         Dispatch (UPDATE_STATUS (Some (js ''File uploaded. Starting processing stream...''))),
         Dispatch (APPEND_TRANSCRIPT (js ''hi'')),
         Console_log (js ''Stream intentionally aborted during cleanup.'')], Settled)
   \<and> isProcessing (published failed_state (fst (handleUploadAndAnalyze sample_parse file_name
        failed_state (Fulfilled ok_response) (Fulfilled ok_response)
        [Read_value (hi_record @ delimiter),
         Read_rejected (Thrown (js ''AbortError'') (js ''The operation was aborted.''))])))
     = True"
  by code_simp

text \<open>
  C1. The handler on a stream that carries the payload
  \<^verbatim>\<open>{"tag":"ERROR","message":"boom"}\<close>, then a transcript record, then \<^verbatim>\<open>[DONE]\<close>: the
  inner \<^verbatim>\<open>catch\<close> takes the thrown error, the transcript record is applied, and the
  session completes with no error.
\<close>

theorem error_payload_swallowed:
  "dispatched (fst (handleUploadAndAnalyze sample_parse file_name initialState
      (Fulfilled ok_response) (Fulfilled ok_response)
      [Read_value (error_record @ delimiter @ hi_record @ delimiter @ done_record @ delimiter)]))
     = [START,
        UPDATE_STATUS (Some (js ''Uploading file to server...'')),
        UPDATE_STATUS (Some (js ''File uploaded. Starting processing stream...'')),
        APPEND_TRANSCRIPT (js ''hi''),
        COMPLETE (Some (check_mark # js '' Analysis Complete. Full Report Available.''))]
   \<and> error (published initialState (fst (handleUploadAndAnalyze sample_parse file_name
        initialState (Fulfilled ok_response) (Fulfilled ok_response)
        [Read_value (error_record @ delimiter @ hi_record @ delimiter @ done_record @ delimiter)])))
     = None
   \<and> transcript (published initialState (fst (handleUploadAndAnalyze sample_parse file_name
        initialState (Fulfilled ok_response) (Fulfilled ok_response)
        [Read_value (error_record @ delimiter @ hi_record @ delimiter @ done_record @ delimiter)])))
     = js ''hi''"
  by code_simp

text \<open>
  C2. The handler on a stream whose first read rejects with a network error: the
  \<^verbatim>\<open>catch\<close> block dispatches \<^verbatim>\<open>ERROR\<close>, and the cleanup, which reads the error of the
  state the handler closes over, dispatches \<^verbatim>\<open>ERROR\<close> again.
\<close>

theorem two_terminal_transitions:
  "dispatched (fst (handleUploadAndAnalyze sample_parse file_name initialState
      (Fulfilled ok_response) (Fulfilled ok_response)
      [Read_rejected (Thrown (js ''TypeError'') (js ''network error''))]))
     = [START,
        UPDATE_STATUS (Some (js ''Uploading file to server...'')),
        UPDATE_STATUS (Some (js ''File uploaded. Starting processing stream...'')),
        ERROR (js ''network error''),
        ERROR (js ''The streaming connection was interrupted.'')]
   \<and> error (published initialState (fst (handleUploadAndAnalyze sample_parse file_name
        initialState (Fulfilled ok_response) (Fulfilled ok_response)
        [Read_rejected (Thrown (js ''TypeError'') (js ''network error''))])))
     = Some (js ''The streaming connection was interrupted.'')"
  by code_simp

end
